theory Spec2Isabelle
  imports Main "HOL-Library.Multiset"
begin

section \<open>Data model (models.py)\<close>

text \<open>
  A Python \<open>datetime\<close> is kept as its wall-clock reading, counted in microseconds
  (the resolution of \<open>datetime\<close>) from a fixed epoch, together with its \<open>tzinfo\<close>:
  \<open>None\<close> for a naive value, \<open>Some off\<close> for an aware value whose UTC offset is
  \<open>off\<close> microseconds. \<open>timezone.utc\<close> is offset 0.
\<close>

record datetime =
  wall :: int
  tzinfo :: "int option"

text \<open>
  \<open>class Task(TaskBase, table=True)\<close>. The primary key \<open>id\<close> is called \<open>task_id\<close>
  here; rows held by the store have one. The field \<open>priority\<close> is a Python \<open>int\<close>.
\<close>

record task =
  task_id :: nat
  title :: string
  description :: "string option"
  status :: string
  due_date :: "datetime option"
  priority :: int
  created_at :: datetime
  updated_at :: datetime

section \<open>The session: the table of tasks, passed explicitly\<close>

text \<open>
  The rows of the table, in the store's natural order. Every skill takes the session and
  hands it back, so that what a skill writes is visible in its result.
\<close>

type_synonym session = "task list"

text \<open>The primary key identifies a row.\<close>

definition wf_session :: "session \<Rightarrow> bool" where
  "wf_session s = distinct (map task_id s)"

text \<open>
  SQL conditions are three-valued: \<open>None\<close> is NULL. \<open>WHERE\<close> keeps the rows on which
  the condition is true.
\<close>

type_synonym sql_bool = "bool option"

definition sql_or :: "sql_bool \<Rightarrow> sql_bool \<Rightarrow> sql_bool" where
  "sql_or a b =
     (if a = Some True \<or> b = Some True then Some True
      else if a = None \<or> b = None then None
      else Some False)"

definition sql_and :: "sql_bool \<Rightarrow> sql_bool \<Rightarrow> sql_bool" where
  "sql_and a b =
     (if a = Some False \<or> b = Some False then Some False
      else if a = None \<or> b = None then None
      else Some True)"

definition select_where :: "(task \<Rightarrow> sql_bool) \<Rightarrow> session \<Rightarrow> task list" where
  "select_where cond s = filter (\<lambda>t. cond t = Some True) s"

text \<open>
  \<open>session.add(task)\<close> on a loaded row followed by \<open>commit\<close> writes the row back under
  its primary key; \<open>session.delete(task)\<close> followed by \<open>commit\<close> removes the row with
  that primary key.
\<close>

definition session_add :: "task \<Rightarrow> session \<Rightarrow> session" where
  "session_add t s = map (\<lambda>r. if task_id r = task_id t then t else r) s"

definition session_delete :: "task \<Rightarrow> session \<Rightarrow> session" where
  "session_delete t s = filter (\<lambda>r. task_id r \<noteq> task_id t) s"

section \<open>Time arithmetic\<close>

text \<open>\<open>d.replace(tzinfo=timezone.utc)\<close>: the same wall-clock reading, declared UTC.\<close>

definition replace_utc :: "datetime \<Rightarrow> datetime" where
  "replace_utc d = d\<lparr>tzinfo := Some 0\<rparr>"

text \<open>
  The instant of an aware value, in microseconds of UTC. The skills attach UTC to a naive
  value before they subtract or compare it, so the naive case below is the reading of a
  naive value as UTC.
\<close>

definition utc_micros :: "datetime \<Rightarrow> int" where
  "utc_micros d = (case tzinfo d of None \<Rightarrow> wall d | Some off \<Rightarrow> wall d - off)"

definition second_us :: int where
  "second_us = 1000000"

definition day_us :: int where
  "day_us = 86400 * second_us"

section \<open>skills/priority.py\<close>

text \<open>
  Lines 19 to 23: \<open>diff = (due_date - now).total_seconds()\<close>, after UTC has been attached
  to a naive \<open>due_date\<close>. The difference is kept in microseconds; \<open>total_seconds\<close>
  divides it by \<open>10^6\<close>, and the thresholds below are multiplied by \<open>10^6\<close> instead.
  \<open>now\<close> is \<open>datetime.now(timezone.utc)\<close>, given as microseconds of UTC.
\<close>

definition time_to_due :: "int \<Rightarrow> datetime \<Rightarrow> int" where
  "time_to_due now d =
     (let due = (if tzinfo d = None then replace_utc d else d)
      in utc_micros due - now)"

text \<open>Lines 25 to 31.\<close>

definition new_priority :: "int \<Rightarrow> int \<Rightarrow> int" where
  "new_priority diff old =
     (if diff < 86400 * second_us then 5
      else if diff < 259200 * second_us then 4
      else if diff < 604800 * second_us then 3
      else old)"

text \<open>The body of the loop, lines 17 to 36, on the session and the counter.\<close>

definition prioritize_body :: "int \<Rightarrow> session \<times> nat \<Rightarrow> task \<Rightarrow> session \<times> nat" where
  "prioritize_body now acc t =
     (case due_date t of
        None \<Rightarrow> acc
      | Some d \<Rightarrow>
          (let np = new_priority (time_to_due now d) (priority t)
           in if np \<noteq> priority t
              then (session_add (t\<lparr>priority := np\<rparr>) (fst acc), Suc (snd acc))
              else acc))"

definition auto_prioritize_tasks :: "int \<Rightarrow> session \<Rightarrow> nat \<times> session" where
  "auto_prioritize_tasks now s =
     (let tasks = select_where (\<lambda>t. Some (status t \<noteq> ''completed'')) s;
          acc = foldl (prioritize_body now) (s, 0) tasks
      in (snd acc, fst acc))"

section \<open>helper/cleanup.py\<close>

text \<open>
  Lines 19 to 27, the body of the loop. \<open>(now - updated_at).days\<close> is the \<open>days\<close> field
  of a normalised \<open>timedelta\<close>: the number of whole days, rounded towards minus
  infinity, which is what \<open>div\<close> on \<open>int\<close> computes.
\<close>

definition archive_body :: "int \<Rightarrow> int \<Rightarrow> session \<times> nat \<Rightarrow> task \<Rightarrow> session \<times> nat" where
  "archive_body now days_old acc t =
     (let upd = (if tzinfo (updated_at t) = None then replace_utc (updated_at t)
                 else updated_at t);
          diff = (now - utc_micros upd) div day_us
      in if diff \<ge> days_old
         then (session_delete t (fst acc), Suc (snd acc))
         else acc)"

definition archive_completed_tasks :: "int \<Rightarrow> int \<Rightarrow> session \<Rightarrow> nat \<times> session" where
  "archive_completed_tasks now days_old s =
     (let tasks = select_where (\<lambda>t. Some (status t = ''completed'')) s;
          acc = foldl (archive_body now days_old) (s, 0) tasks
      in (snd acc, fst acc))"

section \<open>The store's dialect\<close>

text \<open>
  The module that creates the engine is not among the sources, so what the skills leave
  to the database is a parameter: where \<open>ORDER BY ... ASC\<close> puts NULL, and how \<open>LIKE\<close>
  compares a character of the pattern with a character of the text. \<open>sqlite\<close> is the
  engine of tests/test_skills.py: NULL sorts first, and \<open>LIKE\<close> ignores the case of
  ASCII letters.
\<close>

record dialect =
  nulls_first :: bool
  like_eq :: "char \<Rightarrow> char \<Rightarrow> bool"

definition ascii_upper :: "char \<Rightarrow> char" where
  "ascii_upper c =
     (let n = (of_char c :: nat)
      in if 97 \<le> n \<and> n \<le> 122 then char_of (n - 32) else c)"

definition sqlite :: dialect where
  "sqlite = \<lparr>nulls_first = True, like_eq = (\<lambda>a b. ascii_upper a = ascii_upper b)\<rparr>"

text \<open>A store whose \<open>LIKE\<close> compares characters exactly and which sorts NULL last.\<close>

definition exact_nulls_last :: dialect where
  "exact_nulls_last = \<lparr>nulls_first = False, like_eq = (=)\<rparr>"

text \<open>
  \<open>text LIKE pattern\<close> with no escape character: \<open>%\<close> stands for any run of
  characters, \<open>_\<close> for any one character.
\<close>

fun sql_like :: "(char \<Rightarrow> char \<Rightarrow> bool) \<Rightarrow> string \<Rightarrow> string \<Rightarrow> bool" where
  "sql_like eq [] [] = True"
| "sql_like eq [] (c # cs) = False"
| "sql_like eq (p # ps) [] = (p = CHR ''%'' \<and> sql_like eq ps [])"
| "sql_like eq (p # ps) (c # cs) =
     (if p = CHR ''%'' then sql_like eq ps (c # cs) \<or> sql_like eq (p # ps) cs
      else (p = CHR ''_'' \<or> eq p c) \<and> sql_like eq ps cs)"

text \<open>
  \<open>column.contains(query)\<close> is rendered as \<open>column LIKE '%' || query || '%'\<close>; on a
  NULL column the condition is NULL.
\<close>

definition col_contains :: "dialect \<Rightarrow> string option \<Rightarrow> string \<Rightarrow> sql_bool" where
  "col_contains db col q =
     (case col of
        None \<Rightarrow> None
      | Some txt \<Rightarrow> Some (sql_like (like_eq db) (CHR ''%'' # q @ [CHR ''%'']) txt))"

text \<open>
  \<open>due_date <= bound\<close> on the column: the stored wall-clock reading against the
  wall-clock reading of the bound; NULL on a NULL column.
\<close>

definition col_le :: "datetime option \<Rightarrow> int \<Rightarrow> sql_bool" where
  "col_le col bound = (case col of None \<Rightarrow> None | Some d \<Rightarrow> Some (wall d \<le> bound))"

text \<open>\<open>ORDER BY\<close>: a stable insertion sort under the order of the sort keys.\<close>

fun insort_by :: "('a \<Rightarrow> 'a \<Rightarrow> bool) \<Rightarrow> 'a \<Rightarrow> 'a list \<Rightarrow> 'a list" where
  "insort_by le x [] = [x]"
| "insort_by le x (y # ys) = (if le x y then x # y # ys else y # insort_by le x ys)"

definition order_by :: "('a \<Rightarrow> 'a \<Rightarrow> bool) \<Rightarrow> 'a list \<Rightarrow> 'a list" where
  "order_by le xs = foldr (insort_by le) xs []"

text \<open>\<open>due_date ASC\<close> on a nullable column.\<close>

definition due_asc :: "dialect \<Rightarrow> datetime option \<Rightarrow> datetime option \<Rightarrow> bool" where
  "due_asc db x y =
     (case x of
        None \<Rightarrow> (case y of None \<Rightarrow> True | Some b \<Rightarrow> nulls_first db)
      | Some a \<Rightarrow> (case y of None \<Rightarrow> \<not> nulls_first db | Some b \<Rightarrow> wall a \<le> wall b))"

section \<open>skills/search.py\<close>

definition advanced_search :: "dialect \<Rightarrow> string \<Rightarrow> session \<Rightarrow> task list \<times> session" where
  "advanced_search db query s =
     (select_where
        (\<lambda>t. sql_or (col_contains db (Some (title t)) query)
                     (col_contains db (description t) query)) s,
      s)"

section \<open>Formatting\<close>

text \<open>\<open>str(n)\<close> of a Python \<open>int\<close>.\<close>

fun digits :: "nat \<Rightarrow> string" where
  "digits n =
     (if n < 10 then [char_of (48 + n)]
      else digits (n div 10) @ [char_of (48 + n mod 10)])"

definition str_int :: "int \<Rightarrow> string" where
  "str_int i = (if i < 0 then CHR ''-'' # digits (nat (- i)) else digits (nat i))"

section \<open>skills/daily_brief.py\<close>

text \<open>Lines 24 and 25: the line of one task.\<close>

definition brief_line :: "int \<Rightarrow> task \<Rightarrow> string" where
  "brief_line now t =
     (let due_str =
            (if (case due_date t of
                   None \<Rightarrow> False
                 | Some d \<Rightarrow> utc_micros (replace_utc d) < now)
             then ''Overdue!'' else ''Due today'')
      in ''- ['' @ str_int (priority t) @ ''] '' @ title t @ '' ('' @ due_str @ '')''
         @ [CHR 0x0A])"

definition all_caught_up :: string where
  "all_caught_up =
     ''You'' @ [CHR 0x27] @ ''re all caught up! No tasks due today.''"

definition brief_header :: "nat \<Rightarrow> string" where
  "brief_header n =
     ''Good morning! You have '' @ str_int (int n)
       @ '' tasks needing attention today:'' @ [CHR 0x0A]"

definition brief_selection :: "dialect \<Rightarrow> int \<Rightarrow> session \<Rightarrow> task list" where
  "brief_selection db now s =
     (let today_end = now + day_us
      in order_by (\<lambda>a b. due_asc db (due_date a) (due_date b))
           (select_where
              (\<lambda>t. sql_and (Some (status t \<noteq> ''completed''))
                            (col_le (due_date t) today_end)) s))"

definition get_daily_brief :: "dialect \<Rightarrow> int \<Rightarrow> session \<Rightarrow> string \<times> session" where
  "get_daily_brief db now s =
     (let tasks = brief_selection db now s
      in if tasks = [] then (all_caught_up, s)
         else (brief_header (length tasks) @ concat (map (brief_line now) tasks), s))"

section \<open>skills/reporter.py\<close>

text \<open>
  \<open>ORDER BY priority DESC, due_date ASC\<close>. The literals outside ASCII are written as
  their UTF-8 bytes. \<open>strftime\<close> is the library's formatter of a \<open>datetime\<close> under
  \<open>%Y-%m-%d %H:%M\<close>, a parameter.
\<close>

definition report_order :: "dialect \<Rightarrow> task \<Rightarrow> task \<Rightarrow> bool" where
  "report_order db a b =
     (priority a > priority b
      \<or> (priority a = priority b \<and> due_asc db (due_date a) (due_date b)))"

definition report_selection :: "dialect \<Rightarrow> session \<Rightarrow> task list" where
  "report_selection db s = order_by (report_order db) s"

definition status_emoji :: "(string \<times> string) list" where
  "status_emoji =
     [(''todo'', [CHR 0xF0, CHR 0x9F, CHR 0x93, CHR 0x85]),
      (''in_progress'', [CHR 0xF0, CHR 0x9F, CHR 0x9A, CHR 0xA7]),
      (''completed'', [CHR 0xE2, CHR 0x9C, CHR 0x85]),
      (''overdue'', [CHR 0xF0, CHR 0x9F, CHR 0x9A, CHR 0xA8])]"

definition star :: string where
  "star = [CHR 0xE2, CHR 0xAD, CHR 0x90]"

definition report_row :: "(datetime \<Rightarrow> string) \<Rightarrow> task \<Rightarrow> string" where
  "report_row strftime t =
     (let emoji = (case map_of status_emoji (status t) of
                     Some e \<Rightarrow> e
                   | None \<Rightarrow> [CHR 0xF0, CHR 0x9F, CHR 0x93, CHR 0x9D]);
          due = (case due_date t of Some d \<Rightarrow> strftime d | None \<Rightarrow> ''No deadline'')
      in ''| '' @ emoji @ '' '' @ status t @ '' | ''
         @ concat (replicate (nat (priority t)) star)
         @ '' | '' @ title t @ '' | '' @ due @ '' |'' @ [CHR 0x0A])"

definition report_head :: string where
  "report_head =
     ''# Task Management Report'' @ [CHR 0x0A, CHR 0x0A]
     @ ''Generated on: <class '' @ [CHR 0x27] @ ''sqlmodel.orm.session.Session''
     @ [CHR 0x27] @ ''>'' @ [CHR 0x0A, CHR 0x0A]
     @ ''| Status | Priority | Title | Due Date |'' @ [CHR 0x0A]
     @ ''| --- | --- | --- | --- |'' @ [CHR 0x0A]"

definition generate_markdown_report ::
    "dialect \<Rightarrow> (datetime \<Rightarrow> string) \<Rightarrow> session \<Rightarrow> string \<times> session" where
  "generate_markdown_report db strftime s =
     (let tasks = report_selection db s
      in (report_head @ concat (map (report_row strftime) tasks), s))"

section \<open>Derived notions and example data\<close>

text \<open>
  What the prioritisation pass does to one row; \<open>auto_prioritize_tasks_map\<close> below
  proves that the loop of \<open>auto_prioritize_tasks\<close> computes it on every row.
\<close>

definition reprioritized :: "int \<Rightarrow> task \<Rightarrow> task" where
  "reprioritized now t =
     (if status t = ''completed'' then t
      else case due_date t of
             None \<Rightarrow> t
           | Some d \<Rightarrow> t\<lparr>priority := new_priority (time_to_due now d) (priority t)\<rparr>)"

text \<open>Example data: six tasks, one per case of the prioritisation rule.\<close>

definition naive :: "int \<Rightarrow> datetime" where
  "naive w = \<lparr>wall = w, tzinfo = None\<rparr>"

definition ex_now :: int where
  "ex_now = 20000 * day_us"

definition ex_task :: "nat \<Rightarrow> string \<Rightarrow> string \<Rightarrow> datetime option \<Rightarrow> int \<Rightarrow> task" where
  "ex_task i ttl st due p =
     \<lparr>task_id = i, title = ttl, description = None, status = st, due_date = due,
      priority = p, created_at = naive (ex_now - 30 * day_us),
      updated_at = naive (ex_now - 10 * day_us)\<rparr>"

definition ex_session :: session where
  "ex_session =
     [ex_task 1 ''Urgent'' ''todo'' (Some (naive (ex_now - 3600 * second_us))) 1,
      ex_task 2 ''Soon'' ''in_progress'' (Some (naive (ex_now + 2 * day_us))) 5,
      ex_task 3 ''This week'' ''todo'' (Some (naive (ex_now + 5 * day_us))) 1,
      ex_task 4 ''Later'' ''todo'' (Some (naive (ex_now + 7 * day_us))) 2,
      ex_task 5 ''Someday'' ''todo'' None 1,
      ex_task 6 ''Done'' ''completed'' (Some (naive (ex_now - day_us))) 2]"

text \<open>
  What the cleanup removes: a completed task last updated at least \<open>days_old\<close> whole days
  before \<open>now\<close>; \<open>archive_completed_tasks_filter\<close> below proves that the loop of
  \<open>archive_completed_tasks\<close> deletes these rows and no other.
\<close>

definition stale :: "int \<Rightarrow> int \<Rightarrow> task \<Rightarrow> bool" where
  "stale now days_old t =
     (status t = ''completed'' \<and> days_old * day_us \<le> now - utc_micros (updated_at t))"

text \<open>The range of \<open>priority\<close> declared in models.py: \<open>ge=1, le=5\<close>.\<close>

definition priority_ok :: "task \<Rightarrow> bool" where
  "priority_ok t = (1 \<le> priority t \<and> priority t \<le> 5)"

text \<open>Example data for the cleanup: completed and open tasks of several ages.\<close>

definition ex_done :: "nat \<Rightarrow> string \<Rightarrow> string \<Rightarrow> int \<Rightarrow> task" where
  "ex_done i ttl st upd =
     \<lparr>task_id = i, title = ttl, description = None, status = st, due_date = None,
      priority = 1, created_at = naive (ex_now - 30 * day_us), updated_at = naive upd\<rparr>"

definition ex_cleanup_session :: session where
  "ex_cleanup_session =
     [ex_done 1 ''Old'' ''completed'' (ex_now - 10 * day_us),
      ex_done 2 ''New'' ''completed'' (ex_now - day_us),
      ex_done 3 ''Open'' ''todo'' (ex_now - 10 * day_us),
      ex_done 4 ''Week'' ''completed'' (ex_now - 7 * day_us),
      ex_done 5 ''Almost'' ''completed'' (ex_now - 7 * day_us + 1)]"

definition ex_future_session :: session where
  "ex_future_session = [ex_done 1 ''Ahead'' ''completed'' (ex_now + second_us)]"

text \<open>Example data: one open task, due an hour ago, last updated ten days ago.\<close>

definition ex_urgent_session :: session where
  "ex_urgent_session =
     [ex_task 1 ''Urgent'' ''todo'' (Some (naive (ex_now - 3600 * second_us))) 1]"

text \<open>
  The spec's containment, \<open>query in text\<close> of Python: \<open>query\<close> is a run of consecutive
  characters of \<open>text\<close>. \<open>starts_by eq\<close> and \<open>contains_by eq\<close> compare characters
  with \<open>eq\<close>; with equality they are prefix and substring (\<open>is_substring_iff\<close>).
\<close>

fun starts_by :: "(char \<Rightarrow> char \<Rightarrow> bool) \<Rightarrow> string \<Rightarrow> string \<Rightarrow> bool" where
  "starts_by eq [] tx = True"
| "starts_by eq (p # ps) [] = False"
| "starts_by eq (p # ps) (c # cs) = (eq p c \<and> starts_by eq ps cs)"

fun contains_by :: "(char \<Rightarrow> char \<Rightarrow> bool) \<Rightarrow> string \<Rightarrow> string \<Rightarrow> bool" where
  "contains_by eq q [] = starts_by eq q []"
| "contains_by eq q (c # cs) = (starts_by eq q (c # cs) \<or> contains_by eq q cs)"

definition is_substring :: "string \<Rightarrow> string \<Rightarrow> bool" where
  "is_substring q tx = contains_by (=) q tx"

definition literal_query :: "string \<Rightarrow> bool" where
  "literal_query q = (CHR ''%'' \<notin> set q \<and> CHR ''_'' \<notin> set q)"

text \<open>Example data: the two tasks of \<open>test_search_skill\<close>, and a task with no description.\<close>

definition ex_described :: "nat \<Rightarrow> string \<Rightarrow> string option \<Rightarrow> task" where
  "ex_described i ttl descr =
     \<lparr>task_id = i, title = ttl, description = descr, status = ''todo'', due_date = None,
      priority = 1, created_at = naive ex_now, updated_at = naive ex_now\<rparr>"


definition ex_bare_session :: session where
  "ex_bare_session = [ex_described 1 ''Work'' None]"

text \<open>
  The order the spec claims for the report: priority descending, then due date
  ascending, a task with no due date after every task of its tier that has one.
\<close>

definition claimed_report_order :: "task \<Rightarrow> task \<Rightarrow> bool" where
  "claimed_report_order a b =
     (priority a > priority b
      \<or> (priority a = priority b
          \<and> (case due_date b of
                None \<Rightarrow> True
              | Some y \<Rightarrow> (case due_date a of None \<Rightarrow> False | Some x \<Rightarrow> wall x \<le> wall y))))"

text \<open>Example data: two tasks of one priority, the first with a due date, the second without.\<close>

definition ex_report_session :: session where
  "ex_report_session =
     [ex_task 1 ''Dated'' ''todo'' (Some (naive ex_now)) 3,
      ex_task 2 ''Undated'' ''todo'' None 3]"

section \<open>The prioritisation pass, row by row\<close>

lemma reprioritized_id [simp]: "task_id (reprioritized now t) = task_id t"
  by (simp add: reprioritized_def split: option.splits)

lemma priority_update_eq: "(t\<lparr>priority := p\<rparr> = t) = (p = priority t)"
  by (metis task.select_convs(6) task.surjective task.update_convs(6))

lemma prioritize_body_step:
  assumes "status t \<noteq> ''completed''"
  shows "prioritize_body now (s0, c) t =
     (if reprioritized now t \<noteq> t then (session_add (reprioritized now t) s0, Suc c) else (s0, c))"
proof (cases "due_date t")
  case None
  then show ?thesis using assms by (simp add: prioritize_body_def reprioritized_def)
next
  case (Some d)
  show ?thesis using assms Some
    by (simp add: prioritize_body_def reprioritized_def Let_def priority_update_eq)
qed

lemma prioritize_fold:
  assumes "distinct (map task_id ts)"
    and "\<forall>t\<in>set ts. \<forall>r\<in>set s0. task_id r = task_id t \<longrightarrow> r = t"
    and "\<forall>t\<in>set ts. status t \<noteq> ''completed''"
  shows "foldl (prioritize_body now) (s0, c) ts =
     (map (\<lambda>r. if task_id r \<in> task_id ` set ts then reprioritized now r else r) s0,
      c + length (filter (\<lambda>t. reprioritized now t \<noteq> t) ts))"
  using assms
proof (induction ts arbitrary: s0 c)
  case Nil
  then show ?case by simp
next
  case (Cons t ts)
  let ?s1 = "if reprioritized now t \<noteq> t then session_add (reprioritized now t) s0 else s0"
  let ?c1 = "if reprioritized now t \<noteq> t then Suc c else c"
  have st: "status t \<noteq> ''completed''" using Cons.prems(3) by simp
  have step: "prioritize_body now (s0, c) t = (?s1, ?c1)"
    using prioritize_body_step [OF st] by simp
  have s1: "?s1 = map (\<lambda>r. if task_id r = task_id t then reprioritized now r else r) s0"
  proof -
    have "\<And>r. r \<in> set s0 \<Longrightarrow> task_id r = task_id t \<Longrightarrow> r = t"
      using Cons.prems(2) by simp
    then have a: "session_add (reprioritized now t) s0
        = map (\<lambda>r. if task_id r = task_id t then reprioritized now r else r) s0"
      by (auto simp: session_add_def)
    have b: "reprioritized now t = t \<Longrightarrow>
        map (\<lambda>r. if task_id r = task_id t then reprioritized now r else r) s0 = s0"
      using \<open>\<And>r. r \<in> set s0 \<Longrightarrow> task_id r = task_id t \<Longrightarrow> r = t\<close>
      by (induction s0) auto
    show ?thesis using a b by auto
  qed
  have notin: "task_id t \<notin> task_id ` set ts" using Cons.prems(1) by auto
  have pre2: "\<forall>u\<in>set ts. \<forall>r\<in>set ?s1. task_id r = task_id u \<longrightarrow> r = u"
  proof (intro ballI impI)
    fix u r assume u: "u \<in> set ts" and r: "r \<in> set ?s1" and e: "task_id r = task_id u"
    from r s1 obtain r0 where r0: "r0 \<in> set s0"
      and rr: "r = (if task_id r0 = task_id t then reprioritized now r0 else r0)"
      by auto
    have "task_id r0 = task_id u" using rr e by (simp split: if_splits)
    moreover have "task_id u \<noteq> task_id t" using notin u by (metis imageI)
    ultimately have "r = r0" using rr by simp
    then show "r = u" using Cons.prems(2) u r0 e by auto
  qed
  have "foldl (prioritize_body now) (s0, c) (t # ts) = foldl (prioritize_body now) (?s1, ?c1) ts"
    using step by simp
  also have "\<dots> = (map (\<lambda>r. if task_id r \<in> task_id ` set ts then reprioritized now r else r) ?s1,
      ?c1 + length (filter (\<lambda>t. reprioritized now t \<noteq> t) ts))"
    using Cons.IH [of ?s1 ?c1] Cons.prems pre2 by simp
  also have "map (\<lambda>r. if task_id r \<in> task_id ` set ts then reprioritized now r else r) ?s1
      = map (\<lambda>r. if task_id r \<in> task_id ` set (t # ts) then reprioritized now r else r) s0"
    unfolding s1 using notin by (auto simp: image_iff)
  finally show ?case by auto
qed

lemma auto_prioritize_tasks_map:
  assumes "wf_session s"
  shows "auto_prioritize_tasks now s =
     (length (filter (\<lambda>t. reprioritized now t \<noteq> t) s), map (reprioritized now) s)"
proof -
  let ?ts = "filter (\<lambda>t. status t \<noteq> ''completed'') s"
  have d: "distinct (map task_id ?ts)"
    using assms by (simp add: wf_session_def distinct_map_filter)
  have u: "\<forall>t\<in>set ?ts. \<forall>r\<in>set s. task_id r = task_id t \<longrightarrow> r = t"
    using assms by (auto simp: wf_session_def distinct_map inj_on_def)
  have f: "foldl (prioritize_body now) (s, 0) ?ts =
     (map (\<lambda>r. if task_id r \<in> task_id ` set ?ts then reprioritized now r else r) s,
      0 + length (filter (\<lambda>t. reprioritized now t \<noteq> t) ?ts))"
    by (rule prioritize_fold [OF d u]) simp
  have m: "map (\<lambda>r. if task_id r \<in> task_id ` set ?ts then reprioritized now r else r) s
      = map (reprioritized now) s"
    by (auto simp: reprioritized_def image_iff)
  have c: "filter (\<lambda>t. reprioritized now t \<noteq> t) ?ts = filter (\<lambda>t. reprioritized now t \<noteq> t) s"
    by (induction s) (auto simp: reprioritized_def)
  show ?thesis
    unfolding auto_prioritize_tasks_def select_where_def Let_def
    using f m c by simp
qed

lemma time_to_due_eq: "time_to_due now d = utc_micros d - now"
  by (simp add: time_to_due_def utc_micros_def replace_utc_def Let_def)

lemma new_priority_bands:
  "new_priority diff old =
     (if diff < day_us then 5
      else if day_us \<le> diff \<and> diff < 3 * day_us then 4
      else if 3 * day_us \<le> diff \<and> diff < 7 * day_us then 3
      else old)"
  by (simp add: new_priority_def day_us_def second_us_def)

lemma new_priority_idem: "new_priority diff (new_priority diff old) = new_priority diff old"
  by (simp add: new_priority_def)

lemma reprioritized_idem: "reprioritized now (reprioritized now t) = reprioritized now t"
  by (simp add: reprioritized_def new_priority_idem split: option.splits)

lemma wf_session_reprioritized: "wf_session s \<Longrightarrow> wf_session (map (reprioritized now) s)"
  by (simp add: wf_session_def comp_def)

lemma wf_ex_session: "wf_session ex_session"
  by (simp add: wf_session_def ex_session_def ex_task_def)

section \<open>Claims about skills/priority.py\<close>

text \<open>
  C1. With \<open>now\<close> read once for the whole pass, every task that is not completed and has
  a due date gets priority 5 when \<open>due_date - now\<close> is below 24 hours (a negative
  difference, an overdue task, included), 4 from 24 hours up to but not including 3 days,
  3 from 3 days up to but not including 7 days, and keeps its priority from 7 days on; a
  task with no due date keeps its priority, and so does a completed one. No other field
  and no other row changes. The count returned is the number of rows whose priority
  changed. A naive \<open>due_date\<close> is read as UTC (\<open>utc_micros\<close>).
\<close>

theorem prioritize_bands:
  assumes "wf_session s"
  shows "snd (auto_prioritize_tasks now s) =
           map (\<lambda>t. if status t = ''completed'' then t
                    else case due_date t of
                           None \<Rightarrow> t
                         | Some d \<Rightarrow>
                             t\<lparr>priority :=
                                 (let diff = utc_micros d - now
                                  in if diff < day_us then 5
                                     else if day_us \<le> diff \<and> diff < 3 * day_us then 4
                                     else if 3 * day_us \<le> diff \<and> diff < 7 * day_us then 3
                                     else priority t)\<rparr>) s
       \<and> fst (auto_prioritize_tasks now s) =
           length (filter (\<lambda>(t, t'). priority t' \<noteq> priority t)
                     (zip s (snd (auto_prioritize_tasks now s))))"
proof -
  have r: "reprioritized now =
      (\<lambda>t. if status t = ''completed'' then t
            else case due_date t of
                   None \<Rightarrow> t
                 | Some d \<Rightarrow>
                     t\<lparr>priority :=
                         (let diff = utc_micros d - now
                          in if diff < day_us then 5
                             else if day_us \<le> diff \<and> diff < 3 * day_us then 4
                             else if 3 * day_us \<le> diff \<and> diff < 7 * day_us then 3
                             else priority t)\<rparr>)"
    unfolding reprioritized_def time_to_due_eq new_priority_bands Let_def by (rule refl)
  have ch: "(reprioritized now t \<noteq> t) = (priority (reprioritized now t) \<noteq> priority t)" for t
    by (simp add: reprioritized_def priority_update_eq split: option.splits)
  have "length (filter (\<lambda>t. reprioritized now t \<noteq> t) xs) =
        length (filter (\<lambda>(t, t'). priority t' \<noteq> priority t) (zip xs (map (reprioritized now) xs)))"
    for xs
    by (induction xs) (simp_all add: ch)
  then show ?thesis
    using auto_prioritize_tasks_map [OF assms, of now] unfolding r [symmetric] by simp
qed

theorem prioritize_bands_witness:
  "wf_session ex_session
   \<and> map priority (snd (auto_prioritize_tasks ex_now ex_session)) = [5, 4, 3, 2, 1, 2]
   \<and> fst (auto_prioritize_tasks ex_now ex_session) = 3"
proof -
  have h: "wf_session ex_session" by (rule wf_ex_session)
  note t = prioritize_bands [OF h, of ex_now]
  have s: "map priority (snd (auto_prioritize_tasks ex_now ex_session)) = [5, 4, 3, 2, 1, 2]"
    by (subst conjunct1 [OF t])
       (simp add: ex_session_def ex_task_def naive_def utc_micros_def ex_now_def day_us_def
          second_us_def)
  have c: "fst (auto_prioritize_tasks ex_now ex_session) = 3"
    apply (subst conjunct2 [OF t])
    apply (subst conjunct1 [OF t])
    apply (simp add: ex_session_def ex_task_def naive_def utc_micros_def ex_now_def day_us_def
          second_us_def)
    done
  show ?thesis using h s c by simp
qed

text \<open>
  C7. The pass is idempotent: run again at once, with the same \<open>now\<close>, on the session
  the first run left, it returns 0 and leaves every row as it is.
\<close>

theorem prioritize_idempotent:
  assumes "wf_session s"
  shows "auto_prioritize_tasks now (snd (auto_prioritize_tasks now s)) =
           (0, snd (auto_prioritize_tasks now s))"
proof -
  have first: "snd (auto_prioritize_tasks now s) = map (reprioritized now) s"
    using auto_prioritize_tasks_map [OF assms, of now] by simp
  have wf: "wf_session (map (reprioritized now) s)"
    by (rule wf_session_reprioritized [OF assms])
  have "auto_prioritize_tasks now (map (reprioritized now) s) =
      (length (filter (\<lambda>t. reprioritized now t \<noteq> t) (map (reprioritized now) s)),
       map (reprioritized now) (map (reprioritized now) s))"
    by (rule auto_prioritize_tasks_map [OF wf])
  also have "map (reprioritized now) (map (reprioritized now) s) = map (reprioritized now) s"
    by (simp add: reprioritized_idem)
  also have "filter (\<lambda>t. reprioritized now t \<noteq> t) (map (reprioritized now) s) = []"
    by (simp add: filter_empty_conv reprioritized_idem)
  finally show ?thesis using first by simp
qed

theorem prioritize_idempotent_witness:
  "wf_session ex_session
   \<and> fst (auto_prioritize_tasks ex_now ex_session) \<noteq> 0
   \<and> auto_prioritize_tasks ex_now (snd (auto_prioritize_tasks ex_now ex_session))
       = (0, snd (auto_prioritize_tasks ex_now ex_session))"
proof -
  have h: "wf_session ex_session" by (rule wf_ex_session)
  have c: "fst (auto_prioritize_tasks ex_now ex_session) = 3"
    by (simp add: auto_prioritize_tasks_def select_where_def prioritize_body_def session_add_def
        time_to_due_def new_priority_def replace_utc_def
        ex_session_def ex_task_def naive_def utc_micros_def ex_now_def day_us_def second_us_def)
  show ?thesis using h c prioritize_idempotent [OF h, of ex_now] by simp
qed

section \<open>The cleanup, row by row\<close>

lemma day_us_pos: "0 < day_us"
  by (simp add: day_us_def second_us_def)

lemma floor_div_ge:
  fixes n d x :: int
  assumes "0 < n"
  shows "(d \<le> x div n) = (d * n \<le> x)"
proof
  assume "d \<le> x div n"
  then have "d * n \<le> (x div n) * n" using assms by (simp add: mult_right_mono)
  also have "\<dots> \<le> x"
  proof -
    have "x = (x div n) * n + x mod n" by simp
    moreover have "0 \<le> x mod n" using assms by simp
    ultimately show ?thesis by linarith
  qed
  finally show "d * n \<le> x" .
next
  assume "d * n \<le> x"
  then have "(d * n) div n \<le> x div n" using assms by (rule zdiv_mono1)
  then show "d \<le> x div n" using assms by simp
qed

lemma archive_body_step:
  assumes "status t = ''completed''"
  shows "archive_body now days_old (s0, c) t =
     (if stale now days_old t then (session_delete t s0, Suc c) else (s0, c))"
  using assms
  by (simp add: archive_body_def stale_def Let_def utc_micros_def replace_utc_def
      floor_div_ge [OF day_us_pos])

lemma archive_fold:
  assumes "\<forall>t\<in>set ts. status t = ''completed''"
  shows "foldl (archive_body now days_old) (s0, c) ts =
     (filter (\<lambda>r. task_id r \<notin> task_id ` set (filter (stale now days_old) ts)) s0,
      c + length (filter (stale now days_old) ts))"
  using assms
proof (induction ts arbitrary: s0 c)
  case Nil
  then show ?case by simp
next
  case (Cons t ts)
  have st: "status t = ''completed''" using Cons.prems by simp
  have rest: "\<forall>t\<in>set ts. status t = ''completed''" using Cons.prems by simp
  show ?case
  proof (cases "stale now days_old t")
    case True
    have "foldl (archive_body now days_old) (s0, c) (t # ts) =
        foldl (archive_body now days_old) (session_delete t s0, Suc c) ts"
      using archive_body_step [OF st] True by simp
    also have "\<dots> =
        (filter (\<lambda>r. task_id r \<notin> task_id ` set (filter (stale now days_old) ts))
           (session_delete t s0),
         Suc c + length (filter (stale now days_old) ts))"
      by (rule Cons.IH [OF rest])
    also have "filter (\<lambda>r. task_id r \<notin> task_id ` set (filter (stale now days_old) ts))
           (session_delete t s0)
        = filter (\<lambda>r. task_id r \<notin> task_id ` set (filter (stale now days_old) (t # ts))) s0"
      using True by (auto simp: session_delete_def intro: filter_cong)
    finally show ?thesis using True by simp
  next
    case False
    have "foldl (archive_body now days_old) (s0, c) (t # ts) =
        foldl (archive_body now days_old) (s0, c) ts"
      using archive_body_step [OF st] False by simp
    then show ?thesis using Cons.IH [OF rest] False by simp
  qed
qed

lemma archive_completed_tasks_filter:
  assumes "wf_session s"
  shows "archive_completed_tasks now days_old s =
     (length (filter (stale now days_old) s), filter (\<lambda>t. \<not> stale now days_old t) s)"
proof -
  let ?ts = "filter (\<lambda>t. status t = ''completed'') s"
  have f: "foldl (archive_body now days_old) (s, 0) ?ts =
     (filter (\<lambda>r. task_id r \<notin> task_id ` set (filter (stale now days_old) ?ts)) s,
      0 + length (filter (stale now days_old) ?ts))"
    by (rule archive_fold) simp
  have st: "filter (stale now days_old) ?ts = filter (stale now days_old) s"
    by (induction s) (auto simp: stale_def)
  have inj: "inj_on task_id (set s)"
    using assms by (simp add: wf_session_def distinct_map)
  have "r \<in> set s \<Longrightarrow>
      (task_id r \<in> task_id ` set (filter (stale now days_old) s)) = stale now days_old r" for r
    using inj by (auto simp: inj_on_def)
  then have m: "filter (\<lambda>r. task_id r \<notin> task_id ` set (filter (stale now days_old) s)) s
      = filter (\<lambda>t. \<not> stale now days_old t) s"
    by (auto intro: filter_cong)
  have "archive_completed_tasks now days_old s =
      (snd (foldl (archive_body now days_old) (s, 0) ?ts),
       fst (foldl (archive_body now days_old) (s, 0) ?ts))"
    by (simp add: archive_completed_tasks_def select_where_def Let_def)
  also have "\<dots> = (length (filter (stale now days_old) s),
      filter (\<lambda>t. \<not> stale now days_old t) s)"
    unfolding f st m by simp
  finally show ?thesis .
qed

lemma wf_ex_cleanup_session: "wf_session ex_cleanup_session"
  by (simp add: wf_session_def ex_cleanup_session_def ex_done_def)

section \<open>Claims about helper/cleanup.py\<close>

text \<open>
  C2, as amended. For every \<open>days_old\<close>, the cleanup deletes exactly the completed tasks
  whose \<open>updated_at\<close> lies at least \<open>days_old\<close> days before \<open>now\<close> (the boundary
  included, a naive timestamp read as UTC), deletes no other task and returns the number
  of tasks deleted. With \<open>days_old = 0\<close> it deletes all and only the completed tasks
  whose \<open>updated_at\<close> is not later than \<open>now\<close>.
\<close>

theorem cleanup_deletes_stale:
  assumes "wf_session s"
  shows "archive_completed_tasks now days_old s =
           (length (filter (\<lambda>t. status t = ''completed''
                              \<and> days_old * day_us \<le> now - utc_micros (updated_at t)) s),
            filter (\<lambda>t. \<not> (status t = ''completed''
                              \<and> days_old * day_us \<le> now - utc_micros (updated_at t))) s)
       \<and> archive_completed_tasks now 0 s =
           (length (filter (\<lambda>t. status t = ''completed''
                              \<and> utc_micros (updated_at t) \<le> now) s),
            filter (\<lambda>t. \<not> (status t = ''completed''
                              \<and> utc_micros (updated_at t) \<le> now)) s)"
proof -
  have e: "stale now d =
      (\<lambda>t. status t = ''completed'' \<and> d * day_us \<le> now - utc_micros (updated_at t))" for d
    by (rule ext) (simp add: stale_def)
  have z: "stale now 0 =
      (\<lambda>t. status t = ''completed'' \<and> utc_micros (updated_at t) \<le> now)"
    by (rule ext) (simp add: stale_def)
  show ?thesis
    using archive_completed_tasks_filter [OF assms, of now days_old, unfolded e]
      archive_completed_tasks_filter [OF assms, of now 0, unfolded z]
    by (rule conjI)
qed

theorem cleanup_deletes_stale_witness:
  "wf_session ex_cleanup_session
   \<and> fst (archive_completed_tasks ex_now 7 ex_cleanup_session) = 2
   \<and> map title (snd (archive_completed_tasks ex_now 7 ex_cleanup_session))
       = [''New'', ''Open'', ''Almost'']
   \<and> map title (snd (archive_completed_tasks ex_now 0 ex_cleanup_session)) = [''Open'']"
proof -
  have h: "wf_session ex_cleanup_session" by (rule wf_ex_cleanup_session)
  have a: "archive_completed_tasks ex_now 7 ex_cleanup_session =
      (2, [ex_done 2 ''New'' ''completed'' (ex_now - day_us),
           ex_done 3 ''Open'' ''todo'' (ex_now - 10 * day_us),
           ex_done 5 ''Almost'' ''completed'' (ex_now - 7 * day_us + 1)])"
    by (subst conjunct1 [OF cleanup_deletes_stale [OF h]])
       (simp add: ex_cleanup_session_def ex_done_def naive_def utc_micros_def ex_now_def
          day_us_def second_us_def)
  have b: "archive_completed_tasks ex_now 0 ex_cleanup_session =
      (4, [ex_done 3 ''Open'' ''todo'' (ex_now - 10 * day_us)])"
    by (subst conjunct2 [OF cleanup_deletes_stale [OF h]])
       (simp add: ex_cleanup_session_def ex_done_def naive_def utc_micros_def ex_now_def
          day_us_def second_us_def)
  show ?thesis using h a b by (simp add: ex_done_def)
qed

text \<open>
  C2 as stated fails: a completed task whose \<open>updated_at\<close> is one second after \<open>now\<close>
  survives the cleanup with \<open>days_old = 0\<close>, because the whole days between the two,
  rounded down, are \<open>-1\<close>.
\<close>

theorem cleanup_zero_keeps_future_counterexample:
  "archive_completed_tasks ex_now 0 ex_future_session = (0, ex_future_session)
   \<and> map status ex_future_session = [''completed'']
   \<and> snd (archive_completed_tasks ex_now 0 ex_future_session)
       \<noteq> filter (\<lambda>t. status t \<noteq> ''completed'') ex_future_session"
  by (simp add: archive_completed_tasks_def select_where_def archive_body_def
      session_delete_def replace_utc_def utc_micros_def ex_future_session_def ex_done_def
      naive_def ex_now_def day_us_def second_us_def)

section \<open>The range of the priority\<close>

lemma new_priority_range:
  "new_priority diff old \<noteq> old \<Longrightarrow> 1 \<le> new_priority diff old \<and> new_priority diff old \<le> 5"
  by (simp add: new_priority_def split: if_splits)

lemma session_add_range:
  assumes "list_all priority_ok s" and "priority_ok t"
  shows "list_all priority_ok (session_add t s)"
  using assms by (induction s) (simp_all add: session_add_def)

lemma prioritize_body_range:
  assumes "list_all priority_ok (fst acc)"
  shows "list_all priority_ok (fst (prioritize_body now acc t))"
proof (cases "due_date t")
  case None
  then show ?thesis using assms by (simp add: prioritize_body_def)
next
  case (Some d)
  let ?np = "new_priority (time_to_due now d) (priority t)"
  show ?thesis
  proof (cases "?np = priority t")
    case True
    then show ?thesis using assms Some by (simp add: prioritize_body_def)
  next
    case False
    then have "priority_ok (t\<lparr>priority := ?np\<rparr>)"
      using new_priority_range [of "time_to_due now d" "priority t"]
      by (simp add: priority_ok_def)
    then show ?thesis
      using assms Some False by (simp add: prioritize_body_def session_add_range)
  qed
qed

lemma prioritize_fold_range:
  "list_all priority_ok (fst acc) \<Longrightarrow>
   list_all priority_ok (fst (foldl (prioritize_body now) acc ts))"
  by (induction ts arbitrary: acc) (simp_all add: prioritize_body_range)

lemma archive_body_range:
  assumes "list_all priority_ok (fst acc)"
  shows "list_all priority_ok (fst (archive_body now days_old acc t))"
  using assms by (simp add: archive_body_def Let_def session_delete_def list_all_iff)

lemma archive_fold_range:
  "list_all priority_ok (fst acc) \<Longrightarrow>
   list_all priority_ok (fst (foldl (archive_body now days_old) acc ts))"
  by (induction ts arbitrary: acc) (simp_all add: archive_body_range)

text \<open>
  C8. If every task of the store has its priority in [1,5] before a call of prioritize,
  cleanup, search, daily_brief or report, every task of the store after the call has its
  priority in [1,5].
\<close>

theorem priority_range_preserved:
  assumes "list_all priority_ok s"
  shows "list_all priority_ok (snd (auto_prioritize_tasks now s))
       \<and> list_all priority_ok (snd (archive_completed_tasks now days_old s))
       \<and> list_all priority_ok (snd (advanced_search db query s))
       \<and> list_all priority_ok (snd (get_daily_brief db now s))
       \<and> list_all priority_ok (snd (generate_markdown_report db strftime s))"
proof -
  have p: "list_all priority_ok (snd (auto_prioritize_tasks now s))"
    using prioritize_fold_range [of "(s, 0)" now] assms
    by (simp add: auto_prioritize_tasks_def Let_def)
  have a: "list_all priority_ok (snd (archive_completed_tasks now days_old s))"
    using archive_fold_range [of "(s, 0)" now days_old] assms
    by (simp add: archive_completed_tasks_def Let_def)
  have r: "snd (advanced_search db query s) = s"
    "snd (get_daily_brief db now s) = s"
    "snd (generate_markdown_report db strftime s) = s"
    by (simp_all add: advanced_search_def get_daily_brief_def generate_markdown_report_def
        Let_def)
  show ?thesis using p a assms unfolding r by simp
qed

theorem priority_range_preserved_witness:
  "list_all priority_ok ex_session
   \<and> map priority ex_session \<noteq> map priority (snd (auto_prioritize_tasks ex_now ex_session))
   \<and> list_all priority_ok (snd (auto_prioritize_tasks ex_now ex_session))
   \<and> list_all priority_ok (snd (archive_completed_tasks ex_now 0 ex_session))
   \<and> list_all priority_ok (snd (advanced_search sqlite ''e'' ex_session))
   \<and> list_all priority_ok (snd (get_daily_brief sqlite ex_now ex_session))
   \<and> list_all priority_ok (snd (generate_markdown_report sqlite (\<lambda>d. ''date'') ex_session))"
proof -
  have h: "list_all priority_ok ex_session"
    by (simp add: ex_session_def ex_task_def priority_ok_def)
  have c: "map priority (snd (auto_prioritize_tasks ex_now ex_session)) = [5, 4, 3, 2, 1, 2]"
    by (simp add: auto_prioritize_tasks_def select_where_def prioritize_body_def session_add_def
        time_to_due_def new_priority_def replace_utc_def
        ex_session_def ex_task_def naive_def utc_micros_def ex_now_def day_us_def second_us_def)
  have d: "map priority ex_session = [1, 5, 1, 2, 1, 2]"
    by (simp add: ex_session_def ex_task_def)
  show ?thesis
    using h priority_range_preserved [OF h, of ex_now 0 sqlite "''e''" "\<lambda>d. ''date''"]
    unfolding c d by simp
qed

text \<open>
  C9. The daily brief and the report are read-only: the session they hand back is the
  session they were given, with every row and every field as it was.
\<close>

theorem brief_and_report_read_only:
  "snd (get_daily_brief db now s) = s \<and> snd (generate_markdown_report db strftime s) = s"
  by (simp add: get_daily_brief_def generate_markdown_report_def Let_def)

section \<open>What the prioritisation pass leaves untouched\<close>

text \<open>
  C5 fails on the code. The task below is due an hour ago and has priority 1; the pass
  raises its priority to 5 and writes the row, and \<open>updated_at\<close> still reads ten days
  before \<open>now\<close>: the loop assigns \<open>priority\<close> only. The \<open>PATCH\<close> handler of main.py
  sets \<open>updated_at\<close> itself before it writes.
\<close>

theorem prioritize_keeps_updated_at:
  "map priority ex_urgent_session = [1]
   \<and> auto_prioritize_tasks ex_now ex_urgent_session
       = (1, [ex_task 1 ''Urgent'' ''todo'' (Some (naive (ex_now - 3600 * second_us))) 5])
   \<and> map updated_at (snd (auto_prioritize_tasks ex_now ex_urgent_session))
       = [naive (ex_now - 10 * day_us)]
   \<and> naive (ex_now - 10 * day_us) \<noteq> naive ex_now"
  by (simp add: auto_prioritize_tasks_def select_where_def prioritize_body_def session_add_def
      time_to_due_def new_priority_def replace_utc_def ex_urgent_session_def
      ex_task_def naive_def utc_micros_def ex_now_def day_us_def second_us_def)

section \<open>LIKE and containment\<close>

lemma sql_like_percent: "sql_like eq [CHR ''%''] tx"
  by (induction tx) simp_all

lemma sql_like_literal_prefix:
  assumes "literal_query q"
  shows "sql_like eq (q @ [CHR ''%'']) tx = starts_by eq q tx"
  using assms
proof (induction q arbitrary: tx)
  case Nil
  then show ?case by (simp add: sql_like_percent)
next
  case (Cons p ps)
  then have p: "p \<noteq> CHR ''%''" "p \<noteq> CHR ''_''" and ps: "literal_query ps"
    by (auto simp: literal_query_def)
  show ?case
  proof (cases tx)
    case Nil
    then show ?thesis using p by simp
  next
    case (Cons c cs)
    then show ?thesis using p Cons.IH [OF ps] by simp
  qed
qed

lemma sql_like_literal_contains:
  assumes "literal_query q"
  shows "sql_like eq (CHR ''%'' # q @ [CHR ''%'']) tx = contains_by eq q tx"
proof (induction tx)
  case Nil
  show ?case using sql_like_literal_prefix [OF assms, of eq "[]"] by simp
next
  case (Cons c cs)
  show ?case using sql_like_literal_prefix [OF assms, of eq "c # cs"] Cons.IH by simp
qed

lemma starts_by_eq_iff: "starts_by (=) q tx = (\<exists>post. tx = q @ post)"
  by (induction "(=) :: char \<Rightarrow> char \<Rightarrow> bool" q tx rule: starts_by.induct) auto

lemma is_substring_iff: "is_substring q tx = (\<exists>pre post. tx = pre @ q @ post)"
  unfolding is_substring_def
proof (induction tx)
  case Nil
  show ?case by (simp add: starts_by_eq_iff)
next
  case (Cons c cs)
  have "(\<exists>pre post. c # cs = pre @ q @ post) =
        ((\<exists>post. c # cs = q @ post) \<or> (\<exists>pre post. cs = pre @ q @ post))"
  proof
    assume "\<exists>pre post. c # cs = pre @ q @ post"
    then obtain pre post where e: "c # cs = pre @ q @ post" by blast
    show "(\<exists>post. c # cs = q @ post) \<or> (\<exists>pre post. cs = pre @ q @ post)"
    proof (cases pre)
      case Nil
      then show ?thesis using e by auto
    next
      case (Cons a pre')
      then have "cs = pre' @ q @ post" using e by simp
      then show ?thesis by blast
    qed
  next
    assume "(\<exists>post. c # cs = q @ post) \<or> (\<exists>pre post. cs = pre @ q @ post)"
    then show "\<exists>pre post. c # cs = pre @ q @ post"
    proof
      assume "\<exists>post. c # cs = q @ post"
      then obtain post where "c # cs = [] @ q @ post" by auto
      then show ?thesis by blast
    next
      assume "\<exists>pre post. cs = pre @ q @ post"
      then obtain pre post where "c # cs = (c # pre) @ q @ post" by auto
      then show ?thesis by blast
    qed
  qed
  then show ?case using Cons.IH by (simp add: starts_by_eq_iff)
qed

lemma advanced_search_filter:
  "fst (advanced_search db query s) =
     filter (\<lambda>t. sql_like (like_eq db) (CHR ''%'' # query @ [CHR ''%'']) (title t)
               \<or> (case description t of
                    None \<Rightarrow> False
                  | Some d \<Rightarrow> sql_like (like_eq db) (CHR ''%'' # query @ [CHR ''%'']) d)) s"
  unfolding advanced_search_def select_where_def fst_conv
  by (rule filter_cong) (auto simp: sql_or_def col_contains_def split: option.splits)

section \<open>Claims about skills/search.py\<close>




text \<open>
  C10, as amended. A task whose description is null is returned iff it is in the store
  and its title passes the containment test of the store, \<open>title LIKE '%' || query || '%'\<close>;
  for a query with no \<open>%\<close> and no \<open>_\<close> on a store that compares characters exactly,
  that is: iff its title contains the query as a substring. The null description never
  passes the test, whatever the query, the empty one included.
\<close>

theorem search_null_description:
  assumes "description t = None"
  shows "(t \<in> set (fst (advanced_search db query s)))
           = (t \<in> set s \<and> sql_like (like_eq db) (CHR ''%'' # query @ [CHR ''%'']) (title t))
       \<and> (literal_query query \<and> like_eq db = (=) \<longrightarrow>
            (t \<in> set (fst (advanced_search db query s)))
              = (t \<in> set s \<and> is_substring query (title t)))
       \<and> col_contains db (description t) query \<noteq> Some True
       \<and> col_contains db (description t) [] \<noteq> Some True"
proof -
  have m: "(t \<in> set (fst (advanced_search db query s)))
      = (t \<in> set s \<and> sql_like (like_eq db) (CHR ''%'' # query @ [CHR ''%'']) (title t))"
    unfolding advanced_search_filter using assms by auto
  have l: "literal_query query \<and> like_eq db = (=) \<longrightarrow>
      (t \<in> set (fst (advanced_search db query s)))
        = (t \<in> set s \<and> is_substring query (title t))"
    unfolding m is_substring_def by (auto simp: sql_like_literal_contains)
  have n: "col_contains db (description t) q \<noteq> Some True" for q
    using assms by (simp add: col_contains_def)
  show ?thesis using m l n by blast
qed

theorem search_null_description_witness:
  "description (ex_described 1 ''Work'' None) = None
   \<and> literal_query ''or'' \<and> like_eq exact_nulls_last = (=)
   \<and> ex_described 1 ''Work'' None \<in> set (fst (advanced_search exact_nulls_last ''or'' ex_bare_session))
   \<and> ex_described 1 ''Work'' None \<in> set (fst (advanced_search exact_nulls_last [] ex_bare_session))
   \<and> ex_described 1 ''Work'' None \<notin> set (fst (advanced_search exact_nulls_last ''Milk'' ex_bare_session))"
proof -
  let ?t = "ex_described 1 ''Work'' None"
  have h: "description ?t = None" by (simp add: ex_described_def)
  have l: "literal_query ''or''" by (simp add: literal_query_def)
  have e: "like_eq exact_nulls_last = (=)" by (simp add: exact_nulls_last_def)
  have a: "?t \<in> set (fst (advanced_search exact_nulls_last ''or'' ex_bare_session))"
    using conjunct1 [OF conjunct2 [OF search_null_description [OF h, of exact_nulls_last "''or''" ex_bare_session]]] l e
    by (simp add: ex_bare_session_def ex_described_def is_substring_def)
  have b: "?t \<in> set (fst (advanced_search exact_nulls_last [] ex_bare_session))"
    by (subst conjunct1 [OF search_null_description [OF h]])
       (simp add: ex_bare_session_def ex_described_def exact_nulls_last_def)
  have c: "?t \<notin> set (fst (advanced_search exact_nulls_last ''Milk'' ex_bare_session))"
    by (subst conjunct1 [OF search_null_description [OF h]])
       (simp add: ex_bare_session_def ex_described_def exact_nulls_last_def)
  show ?thesis using h l e a b c by simp
qed

text \<open>
  C10 as stated fails where C4 does: the task titled \<open>Work\<close>, with no description, is
  returned for the query \<open>W_rk\<close>, and its title does not contain \<open>W_rk\<close>.
\<close>

theorem search_null_description_counterexample:
  "description (ex_described 1 ''Work'' None) = None
   \<and> fst (advanced_search exact_nulls_last ''W_rk'' ex_bare_session)
       = [ex_described 1 ''Work'' None]
   \<and> \<not> is_substring ''W_rk'' (title (ex_described 1 ''Work'' None))"
  by (simp add: advanced_search_def select_where_def sql_or_def col_contains_def
      ex_bare_session_def ex_described_def is_substring_def exact_nulls_last_def)

section \<open>ORDER BY sorts and keeps every row\<close>

lemma mset_insort_by: "mset (insort_by le x xs) = add_mset x (mset xs)"
  by (induction xs) simp_all

lemma mset_order_by: "mset (order_by le xs) = mset xs"
  unfolding order_by_def by (induction xs) (simp_all add: mset_insort_by)

lemma set_insort_by: "set (insort_by le x xs) = insert x (set xs)"
  using mset_insort_by [of le x xs] by (metis set_mset_add_mset_insert set_mset_mset)

lemma sorted_insort_by:
  assumes tot: "\<And>a b. le a b \<or> le b a"
    and tr: "\<And>a b c. le a b \<Longrightarrow> le b c \<Longrightarrow> le a c"
    and "sorted_wrt le xs"
  shows "sorted_wrt le (insort_by le x xs)"
  using assms(3)
proof (induction xs)
  case Nil
  then show ?case by simp
next
  case (Cons y ys)
  show ?case
  proof (cases "le x y")
    case True
    then have "\<forall>z\<in>set ys. le x z" using Cons.prems tr by auto
    then show ?thesis using True Cons.prems by simp
  next
    case False
    then have yx: "le y x" using tot by blast
    have "sorted_wrt le (insort_by le x ys)" using Cons.IH Cons.prems by simp
    then show ?thesis using False yx Cons.prems by (simp add: set_insort_by)
  qed
qed

lemma sorted_order_by:
  assumes "\<And>a b. le a b \<or> le b a"
    and "\<And>a b c. le a b \<Longrightarrow> le b c \<Longrightarrow> le a c"
  shows "sorted_wrt le (order_by le xs)"
  unfolding order_by_def
  by (induction xs) (simp_all add: sorted_insort_by [OF assms])

lemma due_asc_total: "due_asc db x y \<or> due_asc db y x"
  by (cases x; cases y) (auto simp: due_asc_def)

lemma due_asc_trans: "due_asc db x y \<Longrightarrow> due_asc db y z \<Longrightarrow> due_asc db x z"
  by (cases x; cases y; cases z) (auto simp: due_asc_def)

lemma report_order_total: "report_order db a b \<or> report_order db b a"
  using due_asc_total [of db "due_date a" "due_date b"]
  by (auto simp: report_order_def)

lemma report_order_trans:
  "report_order db a b \<Longrightarrow> report_order db b c \<Longrightarrow> report_order db a c"
  using due_asc_trans [of db "due_date a" "due_date b" "due_date c"]
  by (auto simp: report_order_def)

section \<open>Claims about skills/reporter.py\<close>

text \<open>
  C6, as amended. The report renders one row for every task of the store, ordered by
  priority descending and, within a priority tier, by due date ascending among the tasks
  that have one; the tasks with no due date stand where the store's \<open>ORDER BY ... ASC\<close>
  puts NULL: before the dated tasks of their tier on a store that sorts NULL first, as
  SQLite does, after them on a store that sorts NULL last.
\<close>

theorem report_rows_ordered:
  "mset (report_selection db s) = mset s
   \<and> sorted_wrt
        (\<lambda>a b. priority a > priority b
              \<or> (priority a = priority b
                  \<and> (case due_date a of
                        None \<Rightarrow> (case due_date b of None \<Rightarrow> True | Some y \<Rightarrow> nulls_first db)
                      | Some x \<Rightarrow>
                          (case due_date b of
                             None \<Rightarrow> \<not> nulls_first db
                           | Some y \<Rightarrow> wall x \<le> wall y))))
        (report_selection db s)
   \<and> fst (generate_markdown_report db strftime s)
       = report_head @ concat (map (report_row strftime) (report_selection db s))"
proof -
  have m: "mset (report_selection db s) = mset s"
    by (simp add: report_selection_def mset_order_by)
  have "sorted_wrt (report_order db) (report_selection db s)"
    unfolding report_selection_def
    by (rule sorted_order_by [OF report_order_total report_order_trans])
  then have o: "sorted_wrt
        (\<lambda>a b. priority a > priority b
              \<or> (priority a = priority b
                  \<and> (case due_date a of
                        None \<Rightarrow> (case due_date b of None \<Rightarrow> True | Some y \<Rightarrow> nulls_first db)
                      | Some x \<Rightarrow>
                          (case due_date b of
                             None \<Rightarrow> \<not> nulls_first db
                           | Some y \<Rightarrow> wall x \<le> wall y))))
        (report_selection db s)"
    unfolding report_order_def due_asc_def .
  have r: "fst (generate_markdown_report db strftime s)
       = report_head @ concat (map (report_row strftime) (report_selection db s))"
    by (simp add: generate_markdown_report_def Let_def)
  show ?thesis using m o r by blast
qed

text \<open>
  C6 as stated fails on SQLite, the engine of the tests: of two tasks of priority 3, the
  one with no due date is reported first, not last.
\<close>

theorem report_nulls_first_counterexample:
  "map title (report_selection sqlite ex_report_session) = [''Undated'', ''Dated'']
   \<and> map priority ex_report_session = [3, 3]
   \<and> \<not> sorted_wrt claimed_report_order (report_selection sqlite ex_report_session)"
  by (simp add: report_selection_def order_by_def report_order_def due_asc_def
      claimed_report_order_def sqlite_def ex_report_session_def ex_task_def naive_def)

section \<open>The selection of the daily brief\<close>

lemma select_where_brief:
  "select_where
     (\<lambda>t. sql_and (Some (status t \<noteq> ''completed'')) (col_le (due_date t) bound)) s
   = filter (\<lambda>t. status t \<noteq> ''completed''
               \<and> (case due_date t of None \<Rightarrow> False | Some d \<Rightarrow> wall d \<le> bound)) s"
  unfolding select_where_def
  by (rule filter_cong) (auto simp: sql_and_def col_le_def split: option.splits)

lemma brief_selection_mset:
  "mset (brief_selection db now s) =
     mset (filter (\<lambda>t. status t \<noteq> ''completed''
               \<and> (case due_date t of None \<Rightarrow> False | Some d \<Rightarrow> wall d \<le> now + day_us)) s)"
  by (simp add: brief_selection_def Let_def mset_order_by select_where_brief)

lemma brief_selection_dated:
  assumes "t \<in> set (brief_selection db now s)"
  shows "\<exists>d. due_date t = Some d"
proof -
  have "t \<in># mset (brief_selection db now s)" using assms by simp
  then have "t \<in> set (filter (\<lambda>t. status t \<noteq> ''completed''
               \<and> (case due_date t of None \<Rightarrow> False | Some d \<Rightarrow> wall d \<le> now + day_us)) s)"
    unfolding brief_selection_mset by simp
  then show ?thesis by (cases "due_date t") auto
qed

lemma brief_selection_sorted:
  "sorted_wrt
     (\<lambda>a b. case due_date a of
              None \<Rightarrow> False
            | Some x \<Rightarrow> (case due_date b of None \<Rightarrow> False | Some y \<Rightarrow> wall x \<le> wall y))
     (brief_selection db now s)"
proof -
  have "sorted_wrt (\<lambda>a b. due_asc db (due_date a) (due_date b)) (brief_selection db now s)"
    unfolding brief_selection_def Let_def
    by (rule sorted_order_by) (rule due_asc_total, erule due_asc_trans)
  then show ?thesis
  proof (rule sorted_wrt_mono_rel [rotated])
    fix a b
    assume "a \<in> set (brief_selection db now s)" "b \<in> set (brief_selection db now s)"
      and "due_asc db (due_date a) (due_date b)"
    then show "case due_date a of
              None \<Rightarrow> False
            | Some x \<Rightarrow> (case due_date b of None \<Rightarrow> False | Some y \<Rightarrow> wall x \<le> wall y)"
      using brief_selection_dated [of a db now s] brief_selection_dated [of b db now s]
      by (auto simp: due_asc_def)
  qed
qed

lemma brief_line_eq:
  "brief_line now t =
     ''- ['' @ str_int (priority t) @ ''] '' @ title t @ '' (''
       @ (if (case due_date t of None \<Rightarrow> False | Some d \<Rightarrow> wall d < now)
          then ''Overdue!'' else ''Due today'')
       @ '')'' @ [CHR 0x0A]"
  by (cases "due_date t") (simp_all add: brief_line_def utc_micros_def replace_utc_def)

section \<open>Claims about skills/daily_brief.py\<close>

text \<open>
  C3. For every \<open>now\<close>, the daily brief selects exactly the tasks that are not
  completed and whose due date is at most \<open>now\<close> plus 24 hours (a task with no due
  date is left out), in ascending order of due date. When the selection is empty the
  brief is the fixed all-caught-up sentence; otherwise it is a header that states the
  number of selected tasks, followed by one line \<open>- [priority] title (label)\<close> per task,
  the label being \<open>Overdue!\<close> iff the due date is before \<open>now\<close> and \<open>Due today\<close>
  otherwise. The due date is compared as the store holds it: its wall-clock reading,
  read as UTC.
\<close>

theorem daily_brief_contents:
  "mset (brief_selection db now s) =
     mset (filter (\<lambda>t. status t \<noteq> ''completed''
                       \<and> (case due_date t of
                            None \<Rightarrow> False
                          | Some d \<Rightarrow> wall d \<le> now + 24 * 3600 * second_us)) s)
   \<and> sorted_wrt
        (\<lambda>a b. case due_date a of
                 None \<Rightarrow> False
               | Some x \<Rightarrow> (case due_date b of None \<Rightarrow> False | Some y \<Rightarrow> wall x \<le> wall y))
        (brief_selection db now s)
   \<and> fst (get_daily_brief db now s) =
       (if brief_selection db now s = []
        then ''You'' @ [CHR 0x27] @ ''re all caught up! No tasks due today.''
        else ''Good morning! You have '' @ str_int (int (length (brief_selection db now s)))
               @ '' tasks needing attention today:'' @ [CHR 0x0A]
             @ concat
                 (map (\<lambda>t. ''- ['' @ str_int (priority t) @ ''] '' @ title t @ '' (''
                            @ (if (case due_date t of None \<Rightarrow> False | Some d \<Rightarrow> wall d < now)
                               then ''Overdue!'' else ''Due today'')
                            @ '')'' @ [CHR 0x0A])
                    (brief_selection db now s)))"
proof -
  have d: "24 * 3600 * second_us = day_us" by (simp add: day_us_def)
  have l: "brief_line now =
      (\<lambda>t. ''- ['' @ str_int (priority t) @ ''] '' @ title t @ '' (''
            @ (if (case due_date t of None \<Rightarrow> False | Some d \<Rightarrow> wall d < now)
               then ''Overdue!'' else ''Due today'')
            @ '')'' @ [CHR 0x0A])"
    by (rule ext) (rule brief_line_eq)
  have b: "fst (get_daily_brief db now s) =
       (if brief_selection db now s = [] then all_caught_up
        else brief_header (length (brief_selection db now s))
             @ concat (map (brief_line now) (brief_selection db now s)))"
    by (simp add: get_daily_brief_def Let_def)
  show ?thesis
    unfolding d b l all_caught_up_def brief_header_def
    using brief_selection_mset [of db now s] brief_selection_sorted [of db now s]
    by simp
qed

text \<open>
  The case of \<open>test_daily_brief_skill\<close>: the open task due an hour ago is announced as
  overdue; the completed task due yesterday and the tasks due later are left out.
\<close>

lemma daily_brief_example:
  "fst (get_daily_brief sqlite ex_now ex_session) =
     ''Good morning! You have 1 tasks needing attention today:'' @ [CHR 0x0A]
     @ ''- [1] Urgent (Overdue!)'' @ [CHR 0x0A]"
  by code_simp

end
